theory Spec2Isabelle
  imports Main
begin

section \<open>The relay broker of bluetooth\_data\_sender.py\<close>

text \<open>
  The broker accepts producers on a UNIX socket, forwards what each sends to the serial
  port \<^verbatim>\<open>/dev/rfcomm0\<close> and answers \<^verbatim>\<open>ACK\<close>, \<^verbatim>\<open>NACK\<close> or \<^verbatim>\<open>ERROR: ...\<close>. Its state is three
  module-level globals (\<^verbatim>\<open>ser\<close>, \<^verbatim>\<open>clients\<close>, \<^verbatim>\<open>exit_flag\<close>) and the socket file. The model
  passes that state explicitly; what the operating system and the libraries answer (the
  list of serial ports, whether opening or writing the port raises, what a socket
  receives) is an explicit argument of each operation. Calls of \<^verbatim>\<open>print\<close> have no effect on
  the state and are left out; the evaluation of their arguments, where it can raise, is
  kept.
\<close>

subsection \<open>Bytes, text and exceptions\<close>

type_synonym bytes = "char list"

text \<open>A Python \<^verbatim>\<open>str\<close> is a sequence of Unicode code points.\<close>

type_synonym pystr = "nat list"

datatype exn =
    UnicodeDecodeError
  | UnicodeEncodeError
  | AttributeError
  | PortNotOpenError
  | SerialException string
  | OSError string

text \<open>
  An exception value names the class raised; \<^verbatim>\<open>SerialException\<close> and \<^verbatim>\<open>OSError\<close> carry a
  label for the failure. The text of \<^verbatim>\<open>str(e)\<close> is worded by the library that raised \<^verbatim>\<open>e\<close>
  (for the codec it depends on the offending byte and its position); where the program
  uses it, in the \<^verbatim>\<open>ERROR\<close> reply, it is what the environment answers.
\<close>

subsection \<open>UTF-8, the codec of \<^verbatim>\<open>bytes.decode()\<close> and \<^verbatim>\<open>str.encode()\<close>\<close>

definition cont :: "nat \<Rightarrow> bool" where
  "cont b = (128 \<le> b \<and> b < 192)"

text \<open>
  Strict decoding, on byte values: overlong forms, surrogates and values past U+10FFFF
  are refused, as are truncated sequences.
\<close>

fun utf8_decode :: "nat list \<Rightarrow> nat list option" where
  "utf8_decode [] = Some []"
| "utf8_decode (b0 # bs) =
    (if b0 < 128 then map_option (Cons b0) (utf8_decode bs)
     else if 194 \<le> b0 \<and> b0 < 224 then
       (case bs of
          b1 # r \<Rightarrow>
            if cont b1
            then map_option (Cons ((b0 - 192) * 64 + (b1 - 128))) (utf8_decode r)
            else None
        | _ \<Rightarrow> None)
     else if 224 \<le> b0 \<and> b0 < 240 then
       (case bs of
          b1 # b2 # r \<Rightarrow>
            if cont b1 \<and> cont b2 \<and> (if b0 = 224 then 160 \<le> b1 else True)
               \<and> (if b0 = 237 then b1 < 160 else True)
            then map_option (Cons ((b0 - 224) * 4096 + (b1 - 128) * 64 + (b2 - 128)))
                   (utf8_decode r)
            else None
        | _ \<Rightarrow> None)
     else if 240 \<le> b0 \<and> b0 < 245 then
       (case bs of
          b1 # b2 # b3 # r \<Rightarrow>
            if cont b1 \<and> cont b2 \<and> cont b3 \<and> (if b0 = 240 then 144 \<le> b1 else True)
               \<and> (if b0 = 244 then b1 < 144 else True)
            then map_option
                   (Cons ((b0 - 240) * 262144 + (b1 - 128) * 4096 + (b2 - 128) * 64
                          + (b3 - 128)))
                   (utf8_decode r)
            else None
        | _ \<Rightarrow> None)
     else None)"

fun utf8_encode1 :: "nat \<Rightarrow> nat list option" where
  "utf8_encode1 c =
    (if c < 128 then Some [c]
     else if c < 2048 then Some [192 + c div 64, 128 + c mod 64]
     else if c < 65536 then
       (if 55296 \<le> c \<and> c < 57344 then None
        else Some [224 + c div 4096, 128 + (c div 64) mod 64, 128 + c mod 64])
     else if c < 1114112 then
       Some [240 + c div 262144, 128 + (c div 4096) mod 64, 128 + (c div 64) mod 64,
             128 + c mod 64]
     else None)"

fun utf8_encode :: "nat list \<Rightarrow> nat list option" where
  "utf8_encode [] = Some []"
| "utf8_encode (c # cs) =
    (case utf8_encode1 c of
       None \<Rightarrow> None
     | Some bs \<Rightarrow> map_option ((@) bs) (utf8_encode cs))"

text \<open>The code points a \<^verbatim>\<open>str\<close> can be encoded from: all but the surrogates.\<close>

definition encodable :: "nat \<Rightarrow> bool" where
  "encodable c = (c < 55296 \<or> (57344 \<le> c \<and> c < 1114112))"

definition py_decode :: "bytes \<Rightarrow> exn + pystr" where
  "py_decode bs =
    (case utf8_decode (map of_char bs) of
       None \<Rightarrow> Inl UnicodeDecodeError
     | Some s \<Rightarrow> Inr s)"

definition py_encode :: "pystr \<Rightarrow> exn + bytes" where
  "py_encode s =
    (case utf8_encode s of
       None \<Rightarrow> Inl UnicodeEncodeError
     | Some ns \<Rightarrow> Inr (map char_of ns))"

text \<open>\<^verbatim>\<open>str.isspace\<close> on one code point, and \<^verbatim>\<open>str.strip()\<close> without arguments.\<close>

definition py_isspace :: "nat \<Rightarrow> bool" where
  "py_isspace c =
    ((9 \<le> c \<and> c \<le> 13) \<or> (28 \<le> c \<and> c \<le> 32) \<or> c = 133 \<or> c = 160 \<or> c = 5760
     \<or> (8192 \<le> c \<and> c \<le> 8202) \<or> c = 8232 \<or> c = 8233 \<or> c = 8239 \<or> c = 8287
     \<or> c = 12288)"

definition py_strip :: "pystr \<Rightarrow> pystr" where
  "py_strip s = rev (dropWhile py_isspace (rev (dropWhile py_isspace s)))"

definition newline :: char where
  "newline = CHR 0x0A"

text \<open>\<^verbatim>\<open>data_bytes.endswith(b'\n')\<close>\<close>

definition endswith_newline :: "bytes \<Rightarrow> bool" where
  "endswith_newline bs = (case rev bs of [] \<Rightarrow> False | c # _ \<Rightarrow> c = newline)"

subsection \<open>The global state\<close>

definition RFCOMM_PORT :: string where
  "RFCOMM_PORT = ''/dev/rfcomm0''"

record serial =
  port :: string
  is_open :: bool

text \<open>
  The three globals and the socket file, and beside them what the claims count: the
  byte strings written to the port, the calls of \<^verbatim>\<open>serial.Serial\<close>, of \<^verbatim>\<open>ser.close\<close>, of
  each socket's \<^verbatim>\<open>close\<close> and of \<^verbatim>\<open>os.unlink\<close>, and the replies sent on each socket.
  Sockets are named by numbers (object identity).
\<close>

record world =
  ser :: "serial option"
  clients :: "nat list"
  exit_flag :: bool
  sock_file :: bool
  rfcomm_tx :: "bytes list"
  open_calls :: nat
  ser_closes :: nat
  sock_closes :: "nat \<Rightarrow> nat"
  sock_tx :: "nat \<Rightarrow> bytes list"
  unlinks :: nat

text \<open>\<^verbatim>\<open>ser is None or not ser.is_open\<close>\<close>

definition needs_connection :: "world \<Rightarrow> bool" where
  "needs_connection w = (case ser w of None \<Rightarrow> True | Some s \<Rightarrow> \<not> is_open s)"

text \<open>\<^verbatim>\<open>ser and ser.is_open\<close>\<close>

definition ser_open :: "world \<Rightarrow> bool" where
  "ser_open w = (case ser w of None \<Rightarrow> False | Some s \<Rightarrow> is_open s)"

text \<open>\<^verbatim>\<open>ser and not ser.is_open\<close>\<close>

definition ser_stale :: "world \<Rightarrow> bool" where
  "ser_stale w = (case ser w of None \<Rightarrow> False | Some s \<Rightarrow> \<not> is_open s)"

text \<open>\<^verbatim>\<open>ser.close()\<close> on a handle.\<close>

definition ser_close :: "world \<Rightarrow> world" where
  "ser_close w =
    w\<lparr>ser := map_option (\<lambda>s. s\<lparr>is_open := False\<rparr>) (ser w),
      ser_closes := Suc (ser_closes w)\<rparr>"

text \<open>
  The reset the exception handlers and the monitor share:
  \<^verbatim>\<open>if ser and ser.is_open: ser.close()\<close> followed by \<^verbatim>\<open>ser = None\<close>.
\<close>

definition drop_ser :: "world \<Rightarrow> world" where
  "drop_ser w = (if ser_open w then ser_close w else w)\<lparr>ser := None\<rparr>"

subsection \<open>\<^verbatim>\<open>is_rfcomm_available\<close> and \<^verbatim>\<open>setup_serial_connection\<close>\<close>

text \<open>
  What the system answers to one connection attempt: the port list of
  \<^verbatim>\<open>serial.tools.list_ports.comports()\<close> and the outcome of
  \<^verbatim>\<open>serial.Serial(RFCOMM_PORT, timeout=1)\<close>; either may raise.
\<close>

record conn_env =
  comports :: "exn + string list"
  serial_Serial :: "exn + unit"

definition is_rfcomm_available :: "exn + string list \<Rightarrow> exn + bool" where
  "is_rfcomm_available listing =
    (case listing of
       Inl e \<Rightarrow> Inl e
     | Inr ports \<Rightarrow> Inr (RFCOMM_PORT \<in> set ports))"

text \<open>
  The result is \<open>Some True\<close>, \<open>Some False\<close> or \<open>None\<close>: with the port listed and the
  handle already open the function falls off its end and returns Python's \<^verbatim>\<open>None\<close>.
\<close>

definition setup_serial_connection :: "conn_env \<Rightarrow> world \<Rightarrow> bool option \<times> world" where
  "setup_serial_connection env w =
    (case is_rfcomm_available (comports env) of
       Inl e \<Rightarrow> (Some False, drop_ser w)
     | Inr True \<Rightarrow>
         if needs_connection w then
           (case serial_Serial env of
              Inl e \<Rightarrow> (Some False, drop_ser (w\<lparr>open_calls := Suc (open_calls w)\<rparr>))
            | Inr _ \<Rightarrow>
                (Some True,
                 w\<lparr>ser := Some \<lparr>port = RFCOMM_PORT, is_open = True\<rparr>,
                   open_calls := Suc (open_calls w)\<rparr>))
         else (None, w)
     | Inr False \<Rightarrow> (Some False, w))"

subsection \<open>\<^verbatim>\<open>send_data\<close>\<close>

datatype pydata = Str pystr | Bytes bytes | Obj pystr

text \<open>
  The three \<^verbatim>\<open>isinstance\<close> branches; \<open>Obj s\<close> is any other object, with \<open>s\<close> its
  \<^verbatim>\<open>str(data)\<close>.
\<close>

fun to_bytes :: "pydata \<Rightarrow> exn + bytes" where
  "to_bytes (Str s) = py_encode s"
| "to_bytes (Bytes b) = Inr b"
| "to_bytes (Obj s) = py_encode s"

definition ensure_newline :: "bytes \<Rightarrow> bytes" where
  "ensure_newline bs = (if endswith_newline bs then bs else bs @ [newline])"

text \<open>
  \<^verbatim>\<open>ser.write(data_bytes)\<close>: on \<^verbatim>\<open>None\<close> an AttributeError, on a closed handle pyserial's
  PortNotOpenError, otherwise what the device answers.
\<close>

definition serial_write :: "exn + unit \<Rightarrow> bytes \<Rightarrow> world \<Rightarrow> (exn + unit) \<times> world" where
  "serial_write outcome bs w =
    (case ser w of
       None \<Rightarrow> (Inl AttributeError, w)
     | Some s \<Rightarrow>
         if is_open s then
           (case outcome of
              Inl e \<Rightarrow> (Inl e, w)
            | Inr _ \<Rightarrow> (Inr (), w\<lparr>rfcomm_tx := rfcomm_tx w @ [bs]\<rparr>))
         else (Inl PortNotOpenError, w))"

record send_env =
  conn :: conn_env
  ser_write :: "exn + unit"

text \<open>
  The body of the \<^verbatim>\<open>try\<close>: the result of the \<^verbatim>\<open>return\<close> reached, or the exception raised,
  with the state at that point. The last step is the argument of the final \<^verbatim>\<open>print\<close>,
  \<^verbatim>\<open>data_bytes.decode().strip()\<close>, which raises on bytes that are not UTF-8.
\<close>

definition send_data_try :: "send_env \<Rightarrow> pydata \<Rightarrow> world \<Rightarrow> (exn + bool) \<times> world" where
  "send_data_try env data w =
    (let (connected, w1) =
           (if needs_connection w
            then (case setup_serial_connection (conn env) w of (r, w') \<Rightarrow> (r = Some True, w'))
            else (True, w))
     in if \<not> connected then (Inr False, w1)
        else
          (case to_bytes data of
             Inl e \<Rightarrow> (Inl e, w1)
           | Inr raw \<Rightarrow>
               (let data_bytes = ensure_newline raw in
                case serial_write (ser_write env) data_bytes w1 of
                  (Inl e, w2) \<Rightarrow> (Inl e, w2)
                | (Inr _, w2) \<Rightarrow>
                    (case py_decode data_bytes of
                       Inl e \<Rightarrow> (Inl e, w2)
                     | Inr _ \<Rightarrow> (Inr True, w2)))))"

text \<open>\<^verbatim>\<open>except Exception\<close>: reset the connection and return \<^verbatim>\<open>False\<close>.\<close>

definition send_data :: "send_env \<Rightarrow> pydata \<Rightarrow> world \<Rightarrow> (exn + bool) \<times> world" where
  "send_data env data w =
    (case send_data_try env data w of
       (Inr r, w1) \<Rightarrow> (Inr r, w1)
     | (Inl e, w1) \<Rightarrow> (Inr False, drop_ser w1))"

subsection \<open>\<^verbatim>\<open>handle_client\<close>\<close>

definition BUFFER_SIZE :: nat where
  "BUFFER_SIZE = 4096"

definition ACK :: bytes where
  "ACK = ''ACK'' @ [newline]"

definition NACK :: bytes where
  "NACK = ''NACK'' @ [newline]"

text \<open>\<^verbatim>\<open>f"ERROR: {str(e)}\n".encode()\<close>\<close>

definition error_line :: "pystr \<Rightarrow> exn + bytes" where
  "error_line str_e = py_encode (map of_char ''ERROR: '' @ str_e @ [of_char newline])"

text \<open>
  What one pass of the loop meets: the outcome of \<^verbatim>\<open>client_socket.recv(BUFFER_SIZE)\<close> (the
  bytes one call returned, at most \<open>BUFFER_SIZE\<close> of them; empty at end of stream), what
  \<^verbatim>\<open>send_data\<close> meets, and the outcomes of the two calls of \<^verbatim>\<open>client_socket.send\<close>: the
  one for \<^verbatim>\<open>ACK\<close> or \<^verbatim>\<open>NACK\<close>, and the one in the handler for the \<^verbatim>\<open>ERROR\<close> line; and
  \<open>str_exn\<close>, what \<^verbatim>\<open>str(e)\<close> returns for the exception the handler catches.
\<close>

record chunk_env =
  recv :: "exn + bytes"
  sending :: send_env
  reply_send :: "exn + unit"
  error_send :: "exn + unit"
  str_exn :: "exn \<Rightarrow> pystr"

definition sock_send :: "nat \<Rightarrow> exn + unit \<Rightarrow> bytes \<Rightarrow> world \<Rightarrow> (exn + unit) \<times> world" where
  "sock_send c outcome bs w =
    (case outcome of
       Inl e \<Rightarrow> (Inl e, w)
     | Inr _ \<Rightarrow> (Inr (), w\<lparr>sock_tx := (sock_tx w)(c := sock_tx w c @ [bs])\<rparr>))"

text \<open>The inner \<^verbatim>\<open>try\<close> of the loop.\<close>

definition client_try :: "nat \<Rightarrow> chunk_env \<Rightarrow> bytes \<Rightarrow> world \<Rightarrow> (exn + unit) \<times> world" where
  "client_try c env data w =
    (case py_decode data of
       Inl e \<Rightarrow> (Inl e, w)
     | Inr text \<Rightarrow>
         (let decoded_data = py_strip text in
          case send_data (sending env) (Str decoded_data) w of
            (Inl e, w1) \<Rightarrow> (Inl e, w1)
          | (Inr success, w1) \<Rightarrow>
              if success then sock_send c (reply_send env) ACK w1
              else sock_send c (reply_send env) NACK w1))"

text \<open>
  The inner \<^verbatim>\<open>try\<close> with its handler: an exception of the body is answered with the
  \<^verbatim>\<open>ERROR\<close> line; an exception raised by the handler itself leaves the loop.
\<close>

definition client_chunk :: "nat \<Rightarrow> chunk_env \<Rightarrow> bytes \<Rightarrow> world \<Rightarrow> (exn + unit) \<times> world" where
  "client_chunk c env data w =
    (case client_try c env data w of
       (Inr u, w1) \<Rightarrow> (Inr u, w1)
     | (Inl e, w1) \<Rightarrow>
         (case error_line (str_exn env e) of
            Inl e' \<Rightarrow> (Inl e', w1)
          | Inr line \<Rightarrow> sock_send c (error_send env) line w1))"

text \<open>
  How a loop stands when the observed run ends: still inside it (\<open>Pending\<close>: blocked in
  \<^verbatim>\<open>recv\<close> or asleep), left because \<^verbatim>\<open>exit_flag\<close> was set, left by \<^verbatim>\<open>break\<close> at end of
  stream, or left by an exception.
\<close>

datatype loop_exit = Pending | Stopped | EndOfStream | Raised exn

fun client_loop :: "nat \<Rightarrow> chunk_env list \<Rightarrow> world \<Rightarrow> loop_exit \<times> world" where
  "client_loop c [] w = (if exit_flag w then Stopped else Pending, w)"
| "client_loop c (env # envs) w =
    (if exit_flag w then (Stopped, w)
     else
       (case recv env of
          Inl e \<Rightarrow> (Raised e, w)
        | Inr data \<Rightarrow>
            if data = [] then (EndOfStream, w)
            else
              (case client_chunk c env data w of
                 (Inl e, w1) \<Rightarrow> (Raised e, w1)
               | (Inr _, w1) \<Rightarrow> client_loop c envs w1)))"

text \<open>
  \<^verbatim>\<open>client_socket.close()\<close>, an exception of which is swallowed where the source calls
  it.
\<close>

definition sock_close :: "nat \<Rightarrow> world \<Rightarrow> world" where
  "sock_close c w = w\<lparr>sock_closes := (sock_closes w)(c := Suc (sock_closes w c))\<rparr>"

text \<open>The \<^verbatim>\<open>finally\<close> block.\<close>

definition client_finally :: "nat \<Rightarrow> world \<Rightarrow> world" where
  "client_finally c w =
    (let w1 = sock_close c w
     in if c \<in> set (clients w1) then w1\<lparr>clients := remove1 c (clients w1)\<rparr> else w1)"

text \<open>
  The whole handler, on a run of the loop given by what each pass meets. The outer
  \<^verbatim>\<open>except Exception\<close> only prints, so every way out of the loop goes through \<^verbatim>\<open>finally\<close>.
\<close>

definition handle_client :: "nat \<Rightarrow> chunk_env list \<Rightarrow> world \<Rightarrow> loop_exit \<times> world" where
  "handle_client c envs w =
    (case client_loop c envs (w\<lparr>clients := clients w @ [c]\<rparr>) of
       (Pending, w1) \<Rightarrow> (Pending, w1)
     | (r, w1) \<Rightarrow> (r, client_finally c w1))"

subsection \<open>\<^verbatim>\<open>cleanup\<close>\<close>

text \<open>
  The argument is the outcome of \<^verbatim>\<open>os.unlink\<close>, should it be called; it is the one call
  of \<^verbatim>\<open>cleanup\<close> outside a \<^verbatim>\<open>try\<close>. Note that \<^verbatim>\<open>ser = None\<close> stands inside the \<^verbatim>\<open>if\<close>.
\<close>

definition cleanup :: "exn + unit \<Rightarrow> world \<Rightarrow> (exn + unit) \<times> world" where
  "cleanup unlink_outcome w =
    (let w1 = w\<lparr>exit_flag := True\<rparr>;
         w2 = fold sock_close (clients w1) w1;
         w3 = w2\<lparr>clients := []\<rparr>;
         w4 = (if ser_open w3 then (ser_close w3)\<lparr>ser := None\<rparr> else w3)
     in if sock_file w4 then
          (case unlink_outcome of
             Inl e \<Rightarrow> (Inl e, w4\<lparr>unlinks := Suc (unlinks w4)\<rparr>)
           | Inr _ \<Rightarrow> (Inr (), w4\<lparr>sock_file := False, unlinks := Suc (unlinks w4)\<rparr>))
        else (Inr (), w4))"

subsection \<open>\<^verbatim>\<open>rfcomm_monitor\<close>\<close>

text \<open>
  One pass of the monitor reads the port list for its own test and, where it
  reconnects, \<^verbatim>\<open>setup_serial_connection\<close> reads it again.
\<close>

record monitor_env =
  probe :: "exn + string list"
  reconnect :: conn_env

definition monitor_step :: "monitor_env \<Rightarrow> world \<Rightarrow> (exn + unit) \<times> world" where
  "monitor_step env w =
    (case is_rfcomm_available (probe env) of
       Inl e \<Rightarrow> (Inl e, w)
     | Inr available \<Rightarrow>
         if \<not> available \<or> ser_stale w
         then (Inr (), snd (setup_serial_connection (reconnect env) (drop_ser w)))
         else (Inr (), w))"

text \<open>The loop, one element of the list per interval of five seconds.\<close>

fun rfcomm_monitor :: "monitor_env list \<Rightarrow> world \<Rightarrow> loop_exit \<times> world" where
  "rfcomm_monitor [] w = (if exit_flag w then Stopped else Pending, w)"
| "rfcomm_monitor (env # envs) w =
    (if exit_flag w then (Stopped, w)
     else
       (case monitor_step env w of
          (Inl e, w1) \<Rightarrow> (Raised e, w1)
        | (Inr _, w1) \<Rightarrow> rfcomm_monitor envs w1))"

subsection \<open>A write and a pass of the monitor on two threads\<close>

text \<open>
  \<^verbatim>\<open>send_data\<close> runs on a session's thread and \<^verbatim>\<open>rfcomm_monitor\<close> on its own; the source takes
  no lock around \<^verbatim>\<open>ser\<close>, and Python may switch threads between any two statements. The two
  parts of \<^verbatim>\<open>send_data\<close> on either side of one such switch: the connection test of lines
  50 to 54, with its result (go on, or \<^verbatim>\<open>return False\<close>), and the rest of the function, from
  the conversion of the data to the handler.
\<close>

definition send_data_check :: "send_env \<Rightarrow> world \<Rightarrow> bool \<times> world" where
  "send_data_check env w =
    (if needs_connection w
     then (case setup_serial_connection (conn env) w of (r, w') \<Rightarrow> (r = Some True, w'))
     else (True, w))"

definition send_data_finish :: "send_env \<Rightarrow> pydata \<Rightarrow> world \<Rightarrow> (exn + bool) \<times> world" where
  "send_data_finish env data w =
    (case
       (case to_bytes data of
          Inl e \<Rightarrow> (Inl e, w)
        | Inr raw \<Rightarrow>
            (let data_bytes = ensure_newline raw in
             case serial_write (ser_write env) data_bytes w of
               (Inl e, w2) \<Rightarrow> (Inl e, w2)
             | (Inr _, w2) \<Rightarrow>
                 (case py_decode data_bytes of
                    Inl e \<Rightarrow> (Inl e, w2)
                  | Inr _ \<Rightarrow> (Inr True, w2))))
     of
       (Inr r, w1) \<Rightarrow> (Inr r, w1)
     | (Inl e, w1) \<Rightarrow> (Inr False, drop_ser w1))"

text \<open>
  The run in which one pass of the monitor falls between the two parts.
\<close>

definition monitor_between :: "send_env \<Rightarrow> pydata \<Rightarrow> monitor_env \<Rightarrow> world \<Rightarrow> (exn + bool) \<times> world" where
  "monitor_between env data menv w =
    (case send_data_check env w of
       (False, w1) \<Rightarrow> (Inr False, snd (monitor_step menv w1))
     | (True, w1) \<Rightarrow> send_data_finish env data (snd (monitor_step menv w1)))"

subsection \<open>Example states and environments\<close>

text \<open>The state right after \<^verbatim>\<open>main\<close> has bound the socket, before any connection.\<close>

definition world0 :: world where
  "world0 =
    \<lparr>ser = None, clients = [], exit_flag = False, sock_file = True, rfcomm_tx = [],
     open_calls = 0, ser_closes = 0, sock_closes = (\<lambda>_. 0), sock_tx = (\<lambda>_. []),
     unlinks = 0\<rparr>"

definition world_connected :: world where
  "world_connected = world0\<lparr>ser := Some \<lparr>port = RFCOMM_PORT, is_open = True\<rparr>\<rparr>"

definition port_up :: conn_env where
  "port_up = \<lparr>comports = Inr [''/dev/ttyAMA0'', ''/dev/rfcomm0''], serial_Serial = Inr ()\<rparr>"

definition port_down :: conn_env where
  "port_down = \<lparr>comports = Inr [''/dev/ttyAMA0''], serial_Serial = Inr ()\<rparr>"

definition link_up :: send_env where
  "link_up = \<lparr>conn = port_up, ser_write = Inr ()\<rparr>"

definition link_write_fails :: send_env where
  "link_write_fails = \<lparr>conn = port_up, ser_write = Inl (SerialException ''write failed'')\<rparr>"

definition hello :: pydata where
  "hello = Str (map of_char ''hi'')"

text \<open>Two sessions registered and the port open.\<close>

definition world_serving :: world where
  "world_serving = world_connected\<lparr>clients := [3, 4]\<rparr>"

definition monitor_listed :: monitor_env where
  "monitor_listed = \<lparr>probe = Inr [''/dev/rfcomm0''], reconnect = port_up\<rparr>"

text \<open>An environment in which \<^verbatim>\<open>str(e)\<close> is never asked for.\<close>

definition no_text :: "exn \<Rightarrow> pystr" where
  "no_text = (\<lambda>_. [])"

definition chunk_hello :: chunk_env where
  "chunk_hello =
    \<lparr>recv = Inr (''hi'' @ [newline]), sending = link_up, reply_send = Inr (),
     error_send = Inr (), str_exn = no_text\<rparr>"

definition chunk_eof :: chunk_env where
  "chunk_eof = \<lparr>recv = Inr [], sending = link_up, reply_send = Inr (), error_send = Inr (), str_exn = no_text\<rparr>"

definition chunk_hello_unsent :: chunk_env where
  "chunk_hello_unsent =
    \<lparr>recv = Inr (''hi'' @ [newline]), sending = link_write_fails, reply_send = Inr (),
     error_send = Inr (), str_exn = no_text\<rparr>"

definition chunk_two_lines :: chunk_env where
  "chunk_two_lines =
    \<lparr>recv = Inr (''a'' @ [newline] @ ''b'' @ [newline]), sending = link_up,
     reply_send = Inr (), error_send = Inr (), str_exn = no_text\<rparr>"


definition chunk_padded :: chunk_env where
  "chunk_padded =
    \<lparr>recv = Inr ('' x'' @ [newline]), sending = link_up, reply_send = Inr (),
     error_send = Inr (), str_exn = no_text\<rparr>"



definition monitor_unlisted :: monitor_env where
  "monitor_unlisted = \<lparr>probe = Inr [''/dev/ttyAMA0''], reconnect = port_down\<rparr>"

section \<open>Properties\<close>

subsection \<open>UTF-8: encoding and decoding are inverse\<close>

lemma div4096: "(c::nat) div 4096 = c div 64 div 64"
proof -
  have "c div (64 * 64) = c div 64 div 64" by (rule div_mult2_eq)
  then show ?thesis by simp
qed

lemma div262144: "(c::nat) div 262144 = c div 4096 div 64"
proof -
  have "c div (4096 * 64) = c div 4096 div 64" by (rule div_mult2_eq)
  then show ?thesis by simp
qed

lemma digits3:
  fixes c :: nat
  shows "c = c div 4096 * 4096 + (c div 64) mod 64 * 64 + c mod 64"
proof -
  define d where "d = c div 64"
  have 1: "c = d * 64 + c mod 64" by (simp add: d_def)
  have 2: "d = d div 64 * 64 + d mod 64" by simp
  have 3: "c div 4096 = d div 64" by (simp add: div4096 d_def)
  show ?thesis unfolding 3 d_def[symmetric] using 1 2 by linarith
qed

lemma digits4:
  fixes c :: nat
  shows "c = c div 262144 * 262144 + (c div 4096) mod 64 * 4096 + (c div 64) mod 64 * 64 + c mod 64"
proof -
  define h where "h = c div 4096"
  have 1: "c = h * 4096 + (c div 64) mod 64 * 64 + c mod 64"
    unfolding h_def by (rule digits3)
  have 2: "h = h div 64 * 64 + h mod 64" by simp
  have 3: "c div 262144 = h div 64" by (simp add: div262144 h_def)
  show ?thesis unfolding 3 h_def[symmetric] using 1 2 by linarith
qed


lemma dm64: "b < 64 \<Longrightarrow> (a * 64 + b) div 64 = (a::nat) \<and> (a * 64 + b) mod 64 = b"
  by simp

lemma enc1_two:
  "2 \<le> a \<Longrightarrow> a < 32 \<Longrightarrow> b < 64 \<Longrightarrow> utf8_encode1 (a * 64 + b) = Some [192 + a, 128 + b]"
  by simp

lemma enc1_three:
  assumes "a < 16" "b < 64" "d < 64" "a = 0 \<longrightarrow> 32 \<le> b" "a = 13 \<longrightarrow> b < 32"
  shows "utf8_encode1 (a * 4096 + b * 64 + d) = Some [224 + a, 128 + b, 128 + d]"
proof -
  define c where "c = a * 4096 + b * 64 + d"
  have c64: "c = (a * 64 + b) * 64 + d" by (simp add: c_def)
  have d1: "c div 64 = a * 64 + b" and m1: "c mod 64 = d"
    unfolding c64 using dm64 [OF assms(3), of "a * 64 + b"] by blast+
  have m2: "(c div 64) mod 64 = b" unfolding d1 using assms(2) by simp
  have d2: "c div 4096 = a" unfolding div4096 d1 using assms(2) by simp
  have lo: "2048 \<le> c" using assms(4) unfolding c_def by (cases "a = 0") auto
  have hi: "c < 65536" using assms(1,2,3) unfolding c_def by linarith
  have ns: "\<not> (55296 \<le> c \<and> c < 57344)"
  proof
    assume h: "55296 \<le> c \<and> c < 57344"
    have "a = 13" using h assms(2,3) unfolding c_def by linarith
    with assms(5) have "b < 32" by simp
    with \<open>a = 13\<close> assms(3) have "c < 55296" unfolding c_def by linarith
    with h show False by simp
  qed
  have "utf8_encode1 c = Some [224 + c div 4096, 128 + (c div 64) mod 64, 128 + c mod 64]"
    using lo hi ns by simp
  then show ?thesis unfolding d2 m2 m1 by (simp only: c_def)
qed

lemma enc1_four:
  assumes "a < 5" "b < 64" "d < 64" "e < 64" "a = 0 \<longrightarrow> 16 \<le> b" "a = 4 \<longrightarrow> b < 16"
  shows "utf8_encode1 (a * 262144 + b * 4096 + d * 64 + e)
         = Some [240 + a, 128 + b, 128 + d, 128 + e]"
proof -
  define c where "c = a * 262144 + b * 4096 + d * 64 + e"
  have c64: "c = ((a * 64 + b) * 64 + d) * 64 + e" by (simp add: c_def)
  have d1: "c div 64 = (a * 64 + b) * 64 + d" and m1: "c mod 64 = e"
    unfolding c64 using dm64 [OF assms(4), of "(a * 64 + b) * 64 + d"] by blast+
  have m2: "(c div 64) mod 64 = d"
    unfolding d1 using dm64 [OF assms(3), of "a * 64 + b"] by blast
  have d2: "c div 4096 = a * 64 + b"
    unfolding div4096 d1 using dm64 [OF assms(3), of "a * 64 + b"] by blast
  have m3: "(c div 4096) mod 64 = b" unfolding d2 using assms(2) by simp
  have d3: "c div 262144 = a" unfolding div262144 d2 using assms(2) by simp
  have lo: "65536 \<le> c" using assms(5) unfolding c_def by (cases "a = 0") auto
  have hi: "c < 1114112"
  proof (cases "a = 4")
    case True
    with assms(6) have "b < 16" by simp
    with True assms(3,4) show ?thesis unfolding c_def by linarith
  next
    case False
    with assms(1) have "a \<le> 3" by simp
    with assms(2,3,4) show ?thesis unfolding c_def by linarith
  qed
  have "utf8_encode1 c = Some [240 + c div 262144, 128 + (c div 4096) mod 64,
          128 + (c div 64) mod 64, 128 + c mod 64]"
    using lo hi by simp
  then show ?thesis unfolding d3 m3 m2 m1 by (simp only: c_def)
qed


lemma dec_two:
  "2 \<le> a \<Longrightarrow> a < 32 \<Longrightarrow> b < 64 \<Longrightarrow>
   utf8_decode ([192 + a, 128 + b] @ r) = map_option (Cons (a * 64 + b)) (utf8_decode r)"
  by (simp add: cont_def)

lemma dec_three:
  "a < 16 \<Longrightarrow> b < 64 \<Longrightarrow> d < 64 \<Longrightarrow> (a = 0 \<longrightarrow> 32 \<le> b) \<Longrightarrow> (a = 13 \<longrightarrow> b < 32) \<Longrightarrow>
   utf8_decode ([224 + a, 128 + b, 128 + d] @ r)
   = map_option (Cons (a * 4096 + b * 64 + d)) (utf8_decode r)"
  by (simp add: cont_def)

lemma dec_four:
  "a < 5 \<Longrightarrow> b < 64 \<Longrightarrow> d < 64 \<Longrightarrow> e < 64 \<Longrightarrow> (a = 0 \<longrightarrow> 16 \<le> b) \<Longrightarrow> (a = 4 \<longrightarrow> b < 16) \<Longrightarrow>
   utf8_decode ([240 + a, 128 + b, 128 + d, 128 + e] @ r)
   = map_option (Cons (a * 262144 + b * 4096 + d * 64 + e)) (utf8_decode r)"
  by (simp add: cont_def)

lemma dec_enc1:
  assumes a: "utf8_encode1 c = Some bs"
  shows "utf8_decode (bs @ r) = map_option (Cons c) (utf8_decode r)"
proof -
  consider (one) "c < 128" | (two) "128 \<le> c" "c < 2048" | (three) "2048 \<le> c" "c < 65536"
    | (four) "65536 \<le> c" "c < 1114112" | (big) "1114112 \<le> c"
    by linarith
  then show ?thesis
  proof cases
    case one
    with a show ?thesis by auto
  next
    case two
    define p where "p = c div 64"
    define q where "q = c mod 64"
    have c: "c = p * 64 + q" by (simp add: p_def q_def)
    have q: "q < 64" by (simp add: q_def)
    have p: "2 \<le> p" "p < 32" using two c q by linarith+
    from a two have "bs = [192 + p, 128 + q]" by (simp add: p_def q_def)
    then show ?thesis using dec_two [OF p q, of r] c by simp
  next
    case three
    define p where "p = c div 4096"
    define q where "q = (c div 64) mod 64"
    define t where "t = c mod 64"
    have c: "c = p * 4096 + q * 64 + t" unfolding p_def q_def t_def by (rule digits3)
    have q: "q < 64" and t: "t < 64" by (simp_all add: q_def t_def)
    have p: "p < 16" using three c by linarith
    from a three have ns: "\<not> (55296 \<le> c \<and> c < 57344)"
      and bs: "bs = [224 + p, 128 + q, 128 + t]"
      by (auto simp: p_def q_def t_def split: if_splits)
    have l: "p = 0 \<longrightarrow> 32 \<le> q" using three c t by auto
    have s: "p = 13 \<longrightarrow> q < 32" using ns c t q by auto
    show ?thesis using dec_three [OF p q t l s, of r] bs c by simp
  next
    case four
    define p where "p = c div 262144"
    define q where "q = (c div 4096) mod 64"
    define t where "t = (c div 64) mod 64"
    define u where "u = c mod 64"
    have c: "c = p * 262144 + q * 4096 + t * 64 + u"
      unfolding p_def q_def t_def u_def by (rule digits4)
    have q: "q < 64" and t: "t < 64" and u: "u < 64" by (simp_all add: q_def t_def u_def)
    have p: "p < 5" using four c by linarith
    from a four have bs: "bs = [240 + p, 128 + q, 128 + t, 128 + u]"
      by (auto simp: p_def q_def t_def u_def split: if_splits)
    have l: "p = 0 \<longrightarrow> 16 \<le> q" using four c t u by auto
    have s: "p = 4 \<longrightarrow> q < 16" using four c t u q by auto
    show ?thesis using dec_four [OF p q t u l s, of r] bs c by simp
  next
    case big
    with a show ?thesis by auto
  qed
qed

lemma dec_enc:
  "utf8_encode s = Some bs \<Longrightarrow> utf8_decode (bs @ r) = map_option ((@) s) (utf8_decode r)"
proof (induction s arbitrary: bs)
  case Nil
  then show ?case by (simp add: option.map_ident)
next
  case (Cons c s)
  from Cons.prems obtain b1 b2 where
    1: "utf8_encode1 c = Some b1" and 2: "utf8_encode s = Some b2" and 3: "bs = b1 @ b2"
    by (auto split: option.splits)
  show ?case
    unfolding 3 append_assoc dec_enc1 [OF 1] Cons.IH [OF 2]
    by (simp add: option.map_comp comp_def)
qed


lemma enc_dec:
  "utf8_decode bs = Some s \<Longrightarrow> utf8_encode s = Some bs"
proof (induction bs arbitrary: s rule: utf8_decode.induct)
  case 1
  then show ?case by simp
next
  case (2 b0 bs)
  consider (one) "b0 < 128" | (two) "194 \<le> b0" "b0 < 224" | (three) "224 \<le> b0" "b0 < 240"
    | (four) "240 \<le> b0" "b0 < 245" | (bad) "128 \<le> b0" "b0 < 194" | (big) "245 \<le> b0"
    by linarith
  then show ?case
  proof cases
    case one
    with "2.prems" obtain s' where d: "utf8_decode bs = Some s'" and s: "s = b0 # s'"
      by auto
    from "2.IH"(1) [OF one d] show ?thesis using one s by simp
  next
    case two
    with "2.prems" obtain b1 r s' where bs: "bs = b1 # r" and c: "cont b1"
      and d: "utf8_decode r = Some s'" and s: "s = ((b0 - 192) * 64 + (b1 - 128)) # s'"
      by (auto split: list.splits if_splits)
    have n: "\<not> b0 < 128" using two by simp
    have t: "194 \<le> b0 \<and> b0 < 224" using two by simp
    have e: "utf8_encode s' = Some r" by (rule "2.IH"(2) [OF n t bs c d])
    have "utf8_encode1 ((b0 - 192) * 64 + (b1 - 128)) = Some [192 + (b0 - 192), 128 + (b1 - 128)]"
      using two c by (intro enc1_two) (auto simp: cont_def)
    also have "\<dots> = Some [b0, b1]" using two c by (simp add: cont_def)
    finally show ?thesis using e unfolding s bs by simp
  next
    case three
    with "2.prems" obtain b1 b2 r s' where bs: "bs = b1 # b2 # r"
      and c: "cont b1 \<and> cont b2 \<and> (if b0 = 224 then 160 \<le> b1 else True)
               \<and> (if b0 = 237 then b1 < 160 else True)"
      and d: "utf8_decode r = Some s'"
      and s: "s = ((b0 - 224) * 4096 + (b1 - 128) * 64 + (b2 - 128)) # s'"
      by (auto split: list.splits if_splits)
    have n: "\<not> b0 < 128" and n2: "\<not> (194 \<le> b0 \<and> b0 < 224)" using three by simp_all
    have t: "224 \<le> b0 \<and> b0 < 240" using three by simp
    have e: "utf8_encode s' = Some r" by (rule "2.IH"(3) [OF n n2 t bs refl c d])
    have "utf8_encode1 ((b0 - 224) * 4096 + (b1 - 128) * 64 + (b2 - 128))
          = Some [224 + (b0 - 224), 128 + (b1 - 128), 128 + (b2 - 128)]"
      using three c by (intro enc1_three) (auto simp: cont_def split: if_splits)
    also have "\<dots> = Some [b0, b1, b2]" using three c by (simp add: cont_def)
    finally show ?thesis using e unfolding s bs by simp
  next
    case four
    with "2.prems" obtain b1 b2 b3 r s' where bs: "bs = b1 # b2 # b3 # r"
      and c: "cont b1 \<and> cont b2 \<and> cont b3 \<and> (if b0 = 240 then 144 \<le> b1 else True)
               \<and> (if b0 = 244 then b1 < 144 else True)"
      and d: "utf8_decode r = Some s'"
      and s: "s = ((b0 - 240) * 262144 + (b1 - 128) * 4096 + (b2 - 128) * 64 + (b3 - 128)) # s'"
      by (auto split: list.splits if_splits)
    have n: "\<not> b0 < 128" and n2: "\<not> (194 \<le> b0 \<and> b0 < 224)"
      and n3: "\<not> (224 \<le> b0 \<and> b0 < 240)" using four by simp_all
    have t: "240 \<le> b0 \<and> b0 < 245" using four by simp
    have e: "utf8_encode s' = Some r" by (rule "2.IH"(4) [OF n n2 n3 t bs refl refl c d])
    have "utf8_encode1 ((b0 - 240) * 262144 + (b1 - 128) * 4096 + (b2 - 128) * 64 + (b3 - 128))
          = Some [240 + (b0 - 240), 128 + (b1 - 128), 128 + (b2 - 128), 128 + (b3 - 128)]"
      using four c by (intro enc1_four) (auto simp: cont_def split: if_splits)
    also have "\<dots> = Some [b0, b1, b2, b3]" using four c by (simp add: cont_def)
    finally show ?thesis using e unfolding s bs by simp
  next
    case bad
    with "2.prems" show ?thesis by simp
  next
    case big
    with "2.prems" show ?thesis by simp
  qed
qed

lemma encode1_encodable: "(\<exists>bs. utf8_encode1 c = Some bs) = encodable c"
  by (auto simp: encodable_def)

lemma encode_encodable: "(\<exists>bs. utf8_encode s = Some bs) = list_all encodable s"
proof (induction s)
  case Nil
  then show ?case by simp
next
  case (Cons c s)
  show ?case
  proof (cases "utf8_encode1 c")
    case None
    then have "\<not> encodable c" using encode1_encodable [of c] by simp
    with None show ?thesis by simp
  next
    case (Some a)
    then have "encodable c" using encode1_encodable [of c] by blast
    with Some Cons.IH show ?thesis by auto
  qed
qed

lemma strip_subset: "set (py_strip s) \<subseteq> set s"
proof -
  have "set (py_strip s) \<subseteq> set (dropWhile py_isspace s)"
    unfolding py_strip_def using set_dropWhileD by fastforce
  also have "\<dots> \<subseteq> set s" using set_dropWhileD by fastforce
  finally show ?thesis .
qed

lemma strip_encodable: "list_all encodable s \<Longrightarrow> list_all encodable (py_strip s)"
  using strip_subset [of s] by (auto simp: list_all_iff)

lemma encode1_bytes: "utf8_encode1 c = Some bs \<Longrightarrow> list_all (\<lambda>b. b < 256) bs"
  by (auto split: if_splits)

lemma encode_bytes: "utf8_encode s = Some bs \<Longrightarrow> list_all (\<lambda>b. b < 256) bs"
proof (induction s arbitrary: bs)
  case Nil
  then show ?case by simp
next
  case (Cons c s)
  from Cons.prems obtain b1 b2 where
    1: "utf8_encode1 c = Some b1" and 2: "utf8_encode s = Some b2" and 3: "bs = b1 @ b2"
    by (auto split: option.splits)
  show ?case unfolding 3 using encode1_bytes [OF 1] Cons.IH [OF 2] by simp
qed

lemma of_char_char_of: "list_all (\<lambda>b. b < 256) bs \<Longrightarrow> map of_char (map char_of bs) = (bs :: nat list)"
  by (induction bs) (simp_all add: take_bit_eq_mod)

lemma encode1_last: "utf8_encode1 c = Some bs \<Longrightarrow> bs \<noteq> [] \<and> (last bs = 10) = (c = 10)"
  by (auto split: if_splits)

lemma encode_last:
  "utf8_encode s = Some bs \<Longrightarrow> (bs = []) = (s = []) \<and> (s \<noteq> [] \<longrightarrow> (last bs = 10) = (last s = 10))"
proof (induction s arbitrary: bs)
  case Nil
  then show ?case by simp
next
  case (Cons c s)
  from Cons.prems obtain b1 b2 where
    1: "utf8_encode1 c = Some b1" and 2: "utf8_encode s = Some b2" and 3: "bs = b1 @ b2"
    by (auto split: option.splits)
  show ?case unfolding 3 using encode1_last [OF 1] Cons.IH [OF 2] by (cases "s = []") auto
qed

lemma isspace_newline: "py_isspace 10"
  by (simp add: py_isspace_def)

lemma strip_last: "py_strip s \<noteq> [] \<Longrightarrow> \<not> py_isspace (last (py_strip s))"
proof -
  assume a: "py_strip s \<noteq> []"
  define t where "t = rev (dropWhile py_isspace s)"
  have p: "py_strip s = rev (dropWhile py_isspace t)" by (simp add: py_strip_def t_def)
  with a have ne: "dropWhile py_isspace t \<noteq> []" by simp
  then have "\<not> py_isspace (hd (dropWhile py_isspace t))" by (rule hd_dropWhile)
  moreover have "last (py_strip s) = hd (dropWhile py_isspace t)"
    unfolding p using ne by (simp add: last_rev)
  ultimately show ?thesis by simp
qed

lemma py_encode_decode:
  assumes "py_decode data = Inr str"
  shows "py_encode str = Inr data"
proof -
  from assms have d: "utf8_decode (map of_char data) = Some str"
    by (auto simp: py_decode_def split: option.splits)
  have "utf8_encode str = Some (map of_char data)" by (rule enc_dec [OF d])
  then show ?thesis by (simp add: py_encode_def comp_def)
qed

lemma endswith_newline_last: "endswith_newline bs = (bs \<noteq> [] \<and> last bs = newline)"
  by (cases bs rule: rev_cases) (simp_all add: endswith_newline_def)

lemma stripped_line:
  assumes "py_decode data = Inr str"
  shows "\<exists>bs. py_encode (py_strip str) = Inr bs \<and> \<not> endswith_newline bs
           \<and> py_decode (bs @ [newline]) = Inr (py_strip str @ [10])"
proof -
  from assms have d: "utf8_decode (map of_char data) = Some str"
    by (auto simp: py_decode_def split: option.splits)
  have "utf8_encode str = Some (map of_char data)" by (rule enc_dec [OF d])
  then have "list_all encodable str" using encode_encodable [of str] by blast
  then have "list_all encodable (py_strip str)" by (rule strip_encodable)
  then obtain ns where ns: "utf8_encode (py_strip str) = Some ns"
    using encode_encodable [of "py_strip str"] by blast
  have b: "list_all (\<lambda>b. b < 256) ns" by (rule encode_bytes [OF ns])
  have e: "py_encode (py_strip str) = Inr (map char_of ns)"
    by (simp add: py_encode_def ns)
  have n: "\<not> endswith_newline (map char_of ns)"
  proof
    assume "endswith_newline (map char_of ns)"
    then have ne: "ns \<noteq> []" and l: "last (map char_of ns) = newline"
      by (auto simp: endswith_newline_last)
    from ne have "last (map char_of ns) = char_of (last ns)" by (simp add: last_map)
    with l have "char_of (last ns) = newline" by simp
    moreover have "last ns < 256" using b ne by (simp add: list_all_iff)
    ultimately have "last ns = 10"
      by (simp add: newline_def char_of_eq_iff take_bit_eq_mod)
    moreover from encode_last [OF ns] ne have "py_strip str \<noteq> []"
      and "(last ns = 10) = (last (py_strip str) = 10)" by auto
    ultimately have "py_strip str \<noteq> []" "last (py_strip str) = 10" by simp_all
    with strip_last [of str] isspace_newline show False by simp
  qed
  have "utf8_decode (ns @ [10]) = map_option ((@) (py_strip str)) (utf8_decode [10])"
    by (rule dec_enc [OF ns])
  then have "utf8_decode (ns @ [10]) = Some (py_strip str @ [10])" by simp
  moreover have "map of_char (map char_of ns @ [newline]) = ns @ [10]"
    using of_char_char_of [OF b] by (simp add: newline_def del: map_map)
  ultimately have "py_decode (map char_of ns @ [newline]) = Inr (py_strip str @ [10])"
    unfolding py_decode_def by (simp del: map_append map_map)
  with e n show ?thesis by blast
qed


subsection \<open>The transport: \<^verbatim>\<open>send_data\<close> and \<^verbatim>\<open>setup_serial_connection\<close>\<close>

lemmas serial_defs =
  needs_connection_def ser_open_def ser_stale_def ser_close_def drop_ser_def
  is_rfcomm_available_def setup_serial_connection_def serial_write_def

lemmas example_defs =
  world0_def world_connected_def port_up_def link_up_def link_write_fails_def RFCOMM_PORT_def

lemma send_data_total: "\<exists>b w'. send_data env data w = (Inr b, w')"
  by (auto simp: send_data_def split: prod.splits sum.splits)

lemma connect_raises_result:
  assumes "needs_connection w"
    and "comports (conn env) = Inl e
         \<or> (is_rfcomm_available (comports (conn env)) = Inr True
            \<and> serial_Serial (conn env) = Inl e)"
  shows "fst (send_data env data w) = Inr False \<and> ser (snd (send_data env data w)) = None
         \<and> rfcomm_tx (snd (send_data env data w)) = rfcomm_tx w
         \<and> ser_closes (snd (send_data env data w)) = ser_closes w"
  using assms
  by (auto simp: send_data_def send_data_try_def serial_defs split: option.splits sum.splits)

lemma write_raises_result:
  assumes "to_bytes data = Inr raw" and "ser_write env = Inl e"
    and "ser_open w
         \<or> (needs_connection w \<and> is_rfcomm_available (comports (conn env)) = Inr True
            \<and> serial_Serial (conn env) = Inr ())"
  shows "fst (send_data env data w) = Inr False \<and> ser (snd (send_data env data w)) = None
         \<and> rfcomm_tx (snd (send_data env data w)) = rfcomm_tx w
         \<and> ser_closes (snd (send_data env data w)) = Suc (ser_closes w)"
  using assms
  by (auto simp: send_data_def send_data_try_def serial_defs split: option.splits sum.splits)

lemma fresh_attempt:
  assumes "ser w = None" and "is_rfcomm_available (comports (conn env)) = Inr True"
  shows "open_calls (snd (send_data env data w)) = Suc (open_calls w)"
  using assms
  by (auto simp: send_data_def send_data_try_def serial_defs Let_def
      split: option.splits sum.splits prod.splits if_splits)

text \<open>
  On an open handle, with a text whose encoding does not end in a newline, the result
  is decided by \<^verbatim>\<open>ser.write\<close> alone.
\<close>

lemma send_data_connected:
  assumes "ser_open w" and "py_encode s = Inr bs" and "\<not> endswith_newline bs"
    and "py_decode (bs @ [newline]) = Inr t"
  shows "send_data env (Str s) w =
    (case ser_write env of
       Inl e \<Rightarrow> (Inr False, drop_ser w)
     | Inr _ \<Rightarrow> (Inr True, w\<lparr>rfcomm_tx := rfcomm_tx w @ [bs @ [newline]]\<rparr>))"
  using assms
  by (auto simp: send_data_def send_data_try_def serial_defs ensure_newline_def
      split: option.splits sum.splits)

text \<open>
  Claim C10. \<^verbatim>\<open>send_data\<close> always returns a boolean and never lets an exception reach the
  session. Whenever the connection attempt raises (listing the ports or opening the
  port), or the write raises on an open handle, the handle is closed if it was open (one
  \<^verbatim>\<open>close\<close> after a failed write, none after a failed connection attempt, where no handle
  was open), \<^verbatim>\<open>ser\<close> is reset to \<^verbatim>\<open>None\<close>, nothing is recorded as written and the result is
  \<^verbatim>\<open>False\<close>. From a state with \<^verbatim>\<open>ser = None\<close> the next call, with the port listed, starts
  with a fresh call of \<^verbatim>\<open>serial.Serial\<close>.
\<close>

theorem send_data_absorbs_exceptions:
  "(\<exists>b w'. send_data env data w = (Inr b, w'))
   \<and> (needs_connection w
        \<and> (comports (conn env) = Inl e
            \<or> (is_rfcomm_available (comports (conn env)) = Inr True
               \<and> serial_Serial (conn env) = Inl e))
      \<longrightarrow> fst (send_data env data w) = Inr False
          \<and> ser (snd (send_data env data w)) = None
          \<and> rfcomm_tx (snd (send_data env data w)) = rfcomm_tx w
          \<and> ser_closes (snd (send_data env data w)) = ser_closes w)
   \<and> (to_bytes data = Inr raw \<and> ser_write env = Inl e
        \<and> (ser_open w
            \<or> (needs_connection w \<and> is_rfcomm_available (comports (conn env)) = Inr True
               \<and> serial_Serial (conn env) = Inr ()))
      \<longrightarrow> fst (send_data env data w) = Inr False
          \<and> ser (snd (send_data env data w)) = None
          \<and> rfcomm_tx (snd (send_data env data w)) = rfcomm_tx w
          \<and> ser_closes (snd (send_data env data w)) = Suc (ser_closes w))
   \<and> (ser (snd (send_data env data w)) = None
        \<and> is_rfcomm_available (comports (conn env')) = Inr True
      \<longrightarrow> open_calls (snd (send_data env' data' (snd (send_data env data w))))
          = Suc (open_calls (snd (send_data env data w))))"
proof (intro conjI impI)
  show "\<exists>b w'. send_data env data w = (Inr b, w')"
    by (rule send_data_total)
next
  assume a: "needs_connection w
        \<and> (comports (conn env) = Inl e
            \<or> (is_rfcomm_available (comports (conn env)) = Inr True
               \<and> serial_Serial (conn env) = Inl e))"
  from a have n: "needs_connection w" by simp
  from a have r: "comports (conn env) = Inl e
         \<or> (is_rfcomm_available (comports (conn env)) = Inr True
            \<and> serial_Serial (conn env) = Inl e)" by simp
  note c = connect_raises_result [OF n r, of data]
  from c show "fst (send_data env data w) = Inr False" by simp
  from c show "ser (snd (send_data env data w)) = None" by simp
  from c show "rfcomm_tx (snd (send_data env data w)) = rfcomm_tx w" by simp
  from c show "ser_closes (snd (send_data env data w)) = ser_closes w" by simp
next
  assume a: "to_bytes data = Inr raw \<and> ser_write env = Inl e
        \<and> (ser_open w
            \<or> (needs_connection w \<and> is_rfcomm_available (comports (conn env)) = Inr True
               \<and> serial_Serial (conn env) = Inr ()))"
  from a have 1: "to_bytes data = Inr raw" and 2: "ser_write env = Inl e"
    and 3: "ser_open w
            \<or> (needs_connection w \<and> is_rfcomm_available (comports (conn env)) = Inr True
               \<and> serial_Serial (conn env) = Inr ())" by simp_all
  note c = write_raises_result [OF 1 2 3]
  from c show "fst (send_data env data w) = Inr False" by simp
  from c show "ser (snd (send_data env data w)) = None" by simp
  from c show "rfcomm_tx (snd (send_data env data w)) = rfcomm_tx w" by simp
  from c show "ser_closes (snd (send_data env data w)) = Suc (ser_closes w)" by simp
next
  assume a: "ser (snd (send_data env data w)) = None
        \<and> is_rfcomm_available (comports (conn env')) = Inr True"
  then show "open_calls (snd (send_data env' data' (snd (send_data env data w))))
          = Suc (open_calls (snd (send_data env data w)))"
    using fresh_attempt by blast
qed

text \<open>
  On an open handle whose write raises: the result is \<^verbatim>\<open>False\<close>, the handle has been closed
  once and dropped, and the next call with the link up opens the port again.
\<close>

theorem send_data_absorbs_exceptions_witness:
  "to_bytes (Str (map of_char ''hi'')) = Inr ''hi''
   \<and> ser_write link_write_fails = Inl (SerialException ''write failed'')
   \<and> ser_open world_connected
   \<and> is_rfcomm_available (comports (conn link_up)) = Inr True
   \<and> (\<exists>b w'. send_data link_write_fails (Str (map of_char ''hi'')) world_connected = (Inr b, w'))
   \<and> fst (send_data link_write_fails (Str (map of_char ''hi'')) world_connected) = Inr False
   \<and> ser (snd (send_data link_write_fails (Str (map of_char ''hi'')) world_connected)) = None
   \<and> ser_closes (snd (send_data link_write_fails (Str (map of_char ''hi'')) world_connected))
       = Suc (ser_closes world_connected)
   \<and> open_calls (snd (send_data link_up (Str (map of_char ''hi''))
        (snd (send_data link_write_fails (Str (map of_char ''hi'')) world_connected))))
       = Suc (open_calls (snd (send_data link_write_fails (Str (map of_char ''hi''))
           world_connected)))"
proof -
  have 1: "to_bytes (Str (map of_char ''hi'')) = Inr ''hi''"
    by (simp add: py_encode_def char_of_eq_iff)
  have 2: "ser_write link_write_fails = Inl (SerialException ''write failed'')"
    by (simp add: example_defs)
  have 3: "ser_open world_connected"
    by (simp add: example_defs ser_open_def)
  have 4: "is_rfcomm_available (comports (conn link_up)) = Inr True"
    by (simp add: example_defs is_rfcomm_available_def)
  show ?thesis
    using 1 2 3 4
      send_data_absorbs_exceptions [of link_write_fails "Str (map of_char ''hi'')"
        world_connected "SerialException ''write failed''" "''hi''" link_up
        "Str (map of_char ''hi'')"]
    by simp
qed

text \<open>
  Claim C2 says that a write on a transport that is not connected fails at once and
  leaves reconnecting to the monitor. The code does otherwise: with \<^verbatim>\<open>ser = None\<close>, the port
  listed and the device answering, \<^verbatim>\<open>send_data\<close> opens the port itself, writes, and
  returns \<^verbatim>\<open>True\<close>.
\<close>

theorem send_data_fails_fast_counterexample:
  "needs_connection world0
   \<and> fst (send_data link_up hello world0) = Inr True
   \<and> fst (send_data link_up hello world0) \<noteq> Inr False
   \<and> open_calls (snd (send_data link_up hello world0)) = Suc (open_calls world0)
   \<and> ser_open (snd (send_data link_up hello world0))
   \<and> rfcomm_tx (snd (send_data link_up hello world0)) = [''hi'' @ [newline]]"
  by (simp add: hello_def send_data_def send_data_try_def serial_defs example_defs
      py_encode_def py_decode_def char_of_eq_iff ensure_newline_def endswith_newline_def
      newline_def cont_def)

text \<open>
  Claim C2 as amended. On a transport that is not connected \<^verbatim>\<open>send_data\<close> first calls
  \<^verbatim>\<open>setup_serial_connection\<close>. It fails without an attempt to open only when listing the
  ports raises or the port is not listed; with the port listed it calls \<^verbatim>\<open>serial.Serial\<close>
  once, fails when that raises (leaving \<^verbatim>\<open>ser = None\<close>), and otherwise goes on exactly as
  a call on the freshly opened handle would.
\<close>

theorem send_data_connects_first:
  assumes "needs_connection w"
  shows "(case is_rfcomm_available (comports (conn env)) of
      Inl e \<Rightarrow> send_data env data w = (Inr False, drop_ser w)
    | Inr False \<Rightarrow> send_data env data w = (Inr False, w)
    | Inr True \<Rightarrow>
       (case serial_Serial (conn env) of
          Inl e \<Rightarrow> send_data env data w
                    = (Inr False, drop_ser (w\<lparr>open_calls := Suc (open_calls w)\<rparr>))
        | Inr _ \<Rightarrow> send_data env data w
                    = send_data env data
                        (w\<lparr>ser := Some \<lparr>port = RFCOMM_PORT, is_open = True\<rparr>,
                           open_calls := Suc (open_calls w)\<rparr>)))"
  using assms
  by (auto simp: send_data_def send_data_try_def serial_defs Let_def
      split: option.splits sum.splits prod.splits if_splits bool.splits)

theorem send_data_connects_first_witness:
  "needs_connection world0
   \<and> send_data link_up hello world0
      = send_data link_up hello
          (world0\<lparr>ser := Some \<lparr>port = RFCOMM_PORT, is_open = True\<rparr>,
                  open_calls := Suc (open_calls world0)\<rparr>)"
proof -
  have n: "needs_connection world0"
    by (simp add: example_defs needs_connection_def)
  show ?thesis
    using n send_data_connects_first [OF n, of link_up hello]
    by (simp add: example_defs is_rfcomm_available_def)
qed

subsection \<open>The monitor\<close>

lemma monitor_step_skip:
  "ser w = None \<Longrightarrow> is_rfcomm_available (probe env) = Inr True
   \<Longrightarrow> monitor_step env w = (Inr (), w)"
  by (simp add: monitor_step_def ser_stale_def)

text \<open>
  Claim C3 asks that the monitor alone bring a lost transport back once the device is
  there again. The test of the loop, \<^verbatim>\<open>not is_rfcomm_available() or (ser and not
  ser.is_open)\<close>, is false when \<^verbatim>\<open>ser\<close> is \<^verbatim>\<open>None\<close> and the port is listed: that is the
  state every reset leaves behind. From it, over any number of intervals on which the
  port is listed, the monitor changes nothing and never calls \<^verbatim>\<open>serial.Serial\<close>.
\<close>

theorem rfcomm_monitor_skips_missing_handle:
  assumes "ser w = None"
    and "list_all (\<lambda>env. is_rfcomm_available (probe env) = Inr True) envs"
  shows "rfcomm_monitor envs w = (if exit_flag w then Stopped else Pending, w)"
  using assms
  by (induction envs) (simp_all add: monitor_step_skip)

theorem rfcomm_monitor_skips_missing_handle_witness:
  "ser world0 = None
   \<and> list_all (\<lambda>env. is_rfcomm_available (probe env) = Inr True)
        [monitor_listed, monitor_listed, monitor_listed]
   \<and> rfcomm_monitor [monitor_listed, monitor_listed, monitor_listed] world0
      = (Pending, world0)
   \<and> open_calls world0 = 0"
proof -
  have 1: "ser world0 = None"
    by (simp add: world0_def)
  have 2: "list_all (\<lambda>env. is_rfcomm_available (probe env) = Inr True)
        [monitor_listed, monitor_listed, monitor_listed]"
    by (simp add: monitor_listed_def is_rfcomm_available_def RFCOMM_PORT_def)
  have 3: "\<not> exit_flag world0" "open_calls world0 = 0"
    by (simp_all add: world0_def)
  show ?thesis
    using 1 2 3 rfcomm_monitor_skips_missing_handle [OF 1 2]
    by simp
qed

subsection \<open>Shutdown\<close>

lemma fold_sock_close:
  "fold sock_close cs w = w\<lparr>sock_closes := (\<lambda>c. sock_closes w c + count_list cs c)\<rparr>"
proof (induction cs arbitrary: w)
  case Nil
  then show ?case by simp
next
  case (Cons a cs)
  have "fold sock_close (a # cs) w = fold sock_close cs (sock_close a w)"
    by simp
  also have "\<dots> = (sock_close a w)\<lparr>sock_closes :=
      (\<lambda>c. sock_closes (sock_close a w) c + count_list cs c)\<rparr>"
    by (rule Cons.IH)
  also have "\<dots> = w\<lparr>sock_closes := (\<lambda>c. sock_closes w c + count_list (a # cs) c)\<rparr>"
    by (auto simp: sock_close_def fun_eq_iff)
  finally show ?case .
qed

text \<open>
  Claim C7. Once \<^verbatim>\<open>cleanup\<close> has completed, a second call completes too, whatever
  \<^verbatim>\<open>os.unlink\<close> would answer, and changes nothing: no socket and no serial handle is closed
  again and \<^verbatim>\<open>os.unlink\<close> is not called again. After the first call the flag is set, the
  registry is empty, no handle is open and the socket file is gone, removed by at most
  one call of \<^verbatim>\<open>os.unlink\<close>.
\<close>

theorem cleanup_idempotent:
  assumes "cleanup u1 w = (Inr (), w1)"
  shows "cleanup u2 w1 = (Inr (), w1) \<and> exit_flag w1 \<and> clients w1 = [] \<and> \<not> ser_open w1
     \<and> \<not> sock_file w1 \<and> unlinks w1 = unlinks w + (if sock_file w then 1 else 0)"
  using assms
  by (auto simp: cleanup_def Let_def fold_sock_close ser_open_def ser_close_def
      split: if_splits sum.splits option.splits)

theorem cleanup_idempotent_witness:
  "fst (cleanup (Inr ()) world_serving) = Inr ()
   \<and> cleanup (Inl (OSError ''No such file or directory''))
        (snd (cleanup (Inr ()) world_serving))
      = (Inr (), snd (cleanup (Inr ()) world_serving))
   \<and> unlinks (snd (cleanup (Inr ()) world_serving)) = 1
   \<and> ser_closes (snd (cleanup (Inr ()) world_serving)) = 1
   \<and> sock_closes (snd (cleanup (Inr ()) world_serving)) 3 = 1"
proof -
  have 1: "fst (cleanup (Inr ()) world_serving) = Inr ()"
    by (simp add: cleanup_def Let_def world_serving_def example_defs ser_open_def)
  have 2: "cleanup (Inr ()) world_serving = (Inr (), snd (cleanup (Inr ()) world_serving))"
    using 1 by (metis prod.collapse)
  have 3: "unlinks world_serving = 0" "sock_file world_serving"
    by (simp_all add: world_serving_def example_defs)
  have 4: "ser_closes (snd (cleanup (Inr ()) world_serving)) = 1"
    "sock_closes (snd (cleanup (Inr ()) world_serving)) 3 = 1"
    by (simp_all add: cleanup_def Let_def world_serving_def example_defs ser_open_def
        ser_close_def sock_close_def)
  show ?thesis
    using 1 3 4
      cleanup_idempotent [OF 2, of "Inl (OSError ''No such file or directory'')"]
    by simp
qed

subsection \<open>The session: \<^verbatim>\<open>handle_client\<close>\<close>

lemmas session_defs =
  client_chunk_def client_try_def sock_send_def send_data_def send_data_try_def
  py_decode_def py_encode_def py_strip_def py_isspace_def ensure_newline_def
  endswith_newline_def newline_def cont_def char_of_eq_iff ACK_def NACK_def
  client_finally_def sock_close_def handle_client_def

lemma send_data_frame:
  "send_data env d w = (r, w') \<Longrightarrow>
   clients w' = clients w \<and> exit_flag w' = exit_flag w \<and> sock_closes w' = sock_closes w
   \<and> sock_tx w' = sock_tx w \<and> sock_file w' = sock_file w \<and> unlinks w' = unlinks w"
  by (auto simp: send_data_def send_data_try_def serial_defs Let_def
      split: sum.splits if_splits option.splits bool.splits prod.splits)

lemma sock_send_frame:
  "sock_send c out bs w = (r, w') \<Longrightarrow>
   clients w' = clients w \<and> exit_flag w' = exit_flag w \<and> sock_closes w' = sock_closes w
   \<and> rfcomm_tx w' = rfcomm_tx w \<and> ser w' = ser w"
  by (auto simp: sock_send_def split: sum.splits)

lemma ack_neq_nack: "ACK \<noteq> NACK"
  by (simp add: ACK_def NACK_def)

lemma decoded_chunk_reply:
  assumes "py_decode data = Inr str"
    and "send_data (sending env) (Str (py_strip str)) w = (Inr ok, w1)"
    and "reply_send env = Inr ()"
  shows "client_chunk c env data w
         = (Inr (), w1\<lparr>sock_tx := (sock_tx w)(c := sock_tx w c @ [if ok then ACK else NACK])\<rparr>)"
  using assms send_data_frame [OF assms(2)]
  by (simp add: client_chunk_def client_try_def sock_send_def)


lemma client_chunk_frame:
  "client_chunk c env data w = (r, w') \<Longrightarrow>
   clients w' = clients w \<and> exit_flag w' = exit_flag w \<and> sock_closes w' = sock_closes w"
proof -
  assume a: "client_chunk c env data w = (r, w')"
  obtain r1 w1 where t: "client_try c env data w = (r1, w1)" by (cases "client_try c env data w")
  have f1: "clients w1 = clients w \<and> exit_flag w1 = exit_flag w \<and> sock_closes w1 = sock_closes w"
  proof (cases "py_decode data")
    case (Inl e)
    with t show ?thesis by (simp add: client_try_def)
  next
    case (Inr str)
    obtain r2 w2 where s: "send_data (sending env) (Str (py_strip str)) w = (r2, w2)"
      by (cases "send_data (sending env) (Str (py_strip str)) w")
    note f = send_data_frame [OF s]
    show ?thesis
    proof (cases r2)
      case (Inl e)
      with t Inr s f show ?thesis by (simp add: client_try_def)
    next
      case (Inr ok)
      with t \<open>py_decode data = Inr str\<close> s
      have "sock_send c (reply_send env) (if ok then ACK else NACK) w2 = (r1, w1)"
        by (simp add: client_try_def split: if_splits)
      from sock_send_frame [OF this] f show ?thesis by simp
    qed
  qed
  show ?thesis
  proof (cases r1)
    case (Inr u)
    with a t f1 show ?thesis by (simp add: client_chunk_def)
  next
    case (Inl e)
    show ?thesis
    proof (cases "error_line (str_exn env e)")
      case (Inl e')
      with a t \<open>r1 = Inl e\<close> f1 show ?thesis by (simp add: client_chunk_def)
    next
      case (Inr line)
      with a t \<open>r1 = Inl e\<close> have "sock_send c (error_send env) line w1 = (r, w')"
        by (simp add: client_chunk_def)
      from sock_send_frame [OF this] f1 show ?thesis by simp
    qed
  qed
qed

lemma client_loop_frame:
  "client_loop c envs w = (r, w') \<Longrightarrow>
   clients w' = clients w \<and> exit_flag w' = exit_flag w \<and> sock_closes w' = sock_closes w"
proof (induction envs arbitrary: w)
  case Nil
  then show ?case by (auto split: if_splits)
next
  case (Cons env envs)
  show ?case
  proof (cases "exit_flag w")
    case True
    with Cons.prems show ?thesis by simp
  next
    case False
    show ?thesis
    proof (cases "recv env")
      case (Inl e)
      with False Cons.prems show ?thesis by simp
    next
      case (Inr data)
      show ?thesis
      proof (cases "data = []")
        case True
        with False Inr Cons.prems show ?thesis by simp
      next
        case ne: False
        obtain r1 w1 where ch: "client_chunk c env data w = (r1, w1)"
          by (cases "client_chunk c env data w")
        note f = client_chunk_frame [OF ch]
        show ?thesis
        proof (cases r1)
          case (Inl e)
          with False Inr ne ch Cons.prems f show ?thesis by auto
        next
          case (Inr u)
          with False \<open>recv env = Inr data\<close> ne ch Cons.prems
          have "client_loop c envs w1 = (r, w')" by simp
          from Cons.IH [OF this] f show ?thesis by simp
        qed
      qed
    qed
  qed
qed

lemma client_loop_pending: "client_loop c envs w = (Pending, w') \<Longrightarrow> \<not> exit_flag w'"
proof (induction envs arbitrary: w)
  case Nil
  then show ?case by (auto split: if_splits)
next
  case (Cons env envs)
  then show ?case
    by (auto split: if_splits sum.splits prod.splits)
qed

lemma client_loop_append:
  "client_loop c (pre @ rest) w =
    (case client_loop c pre w of
       (Pending, w1) \<Rightarrow> client_loop c rest w1
     | (r, w1) \<Rightarrow> (r, w1))"
proof (induction pre arbitrary: w)
  case Nil
  show ?case by (cases rest) auto
next
  case (Cons env pre)
  show ?case
    by (auto simp: Cons.IH split: sum.splits prod.splits)
qed

lemma count_remove1_snoc: "count_list (remove1 c (xs @ [c])) c = count_list xs c"
  by (induction xs) auto

text \<open>
  Claim C8. Take a session that is waiting in \<^verbatim>\<open>recv\<close> after any run of passes, and let the
  next \<^verbatim>\<open>recv\<close> return no bytes or raise. The handler then leaves the loop (by \<^verbatim>\<open>break\<close>, or
  through the outer \<^verbatim>\<open>except\<close>), sends nothing more on the socket and writes nothing more to
  the port, closes the socket exactly once, and takes its entry out of \<^verbatim>\<open>clients\<close>: the
  registry holds the socket as often as before the session began. Whatever would have
  followed on the connection is not read.
\<close>

theorem handle_client_disconnect:
  assumes alive: "client_loop c pre (w\<lparr>clients := clients w @ [c]\<rparr>) = (Pending, w1)"
    and gone: "recv env = Inr [] \<or> recv env = Inl e"
  shows "handle_client c (pre @ env # rest) w
          = (case recv env of Inr _ \<Rightarrow> EndOfStream | Inl x \<Rightarrow> Raised x,
             w1\<lparr>sock_closes := (sock_closes w)(c := Suc (sock_closes w c)),
                clients := remove1 c (clients w @ [c])\<rparr>)
         \<and> sock_tx (snd (handle_client c (pre @ env # rest) w)) = sock_tx w1
         \<and> rfcomm_tx (snd (handle_client c (pre @ env # rest) w)) = rfcomm_tx w1
         \<and> sock_closes (snd (handle_client c (pre @ env # rest) w)) c = Suc (sock_closes w c)
         \<and> count_list (clients (snd (handle_client c (pre @ env # rest) w))) c
             = count_list (clients w) c"
proof -
  note f = client_loop_frame [OF alive]
  have nf: "\<not> exit_flag w1" by (rule client_loop_pending [OF alive])
  have l: "client_loop c (pre @ env # rest) (w\<lparr>clients := clients w @ [c]\<rparr>)
           = client_loop c (env # rest) w1"
    by (simp add: client_loop_append alive)
  have e: "client_loop c (env # rest) w1
           = (case recv env of Inr _ \<Rightarrow> EndOfStream | Inl x \<Rightarrow> Raised x, w1)"
    using gone nf by auto
  have fin: "client_finally c w1
      = w1\<lparr>sock_closes := (sock_closes w)(c := Suc (sock_closes w c)),
            clients := remove1 c (clients w @ [c])\<rparr>"
    using f by (simp add: client_finally_def sock_close_def)
  have h: "handle_client c (pre @ env # rest) w
          = (case recv env of Inr _ \<Rightarrow> EndOfStream | Inl x \<Rightarrow> Raised x,
             w1\<lparr>sock_closes := (sock_closes w)(c := Suc (sock_closes w c)),
                clients := remove1 c (clients w @ [c])\<rparr>)"
    unfolding handle_client_def l e using gone fin by auto
  have cnt: "count_list (remove1 c (clients w @ [c])) c = count_list (clients w) c"
    by (rule count_remove1_snoc)
  show ?thesis unfolding h using cnt by simp
qed

theorem handle_client_disconnect_witness:
  "fst (client_loop 7 [chunk_hello] (world_connected\<lparr>clients := clients world_connected @ [7]\<rparr>))
     = Pending
   \<and> recv chunk_eof = Inr []
   \<and> fst (handle_client 7 ([chunk_hello] @ chunk_eof # []) world_connected) = EndOfStream
   \<and> sock_closes (snd (handle_client 7 ([chunk_hello] @ chunk_eof # []) world_connected)) 7 = 1
   \<and> count_list (clients (snd (handle_client 7 ([chunk_hello] @ chunk_eof # []) world_connected))) 7 = 0"
proof -
  have 1: "fst (client_loop 7 [chunk_hello]
      (world_connected\<lparr>clients := clients world_connected @ [7]\<rparr>)) = Pending"
    by (simp add: chunk_hello_def example_defs session_defs serial_defs)
  have 2: "client_loop 7 [chunk_hello] (world_connected\<lparr>clients := clients world_connected @ [7]\<rparr>)
     = (Pending, snd (client_loop 7 [chunk_hello]
          (world_connected\<lparr>clients := clients world_connected @ [7]\<rparr>)))"
    using 1 by (metis prod.collapse)
  have 3: "recv chunk_eof = Inr []" by (simp add: chunk_eof_def)
  have 4: "recv chunk_eof = Inr [] \<or> recv chunk_eof = Inl (OSError [])" using 3 by simp
  have 5: "sock_closes world_connected 7 = 0" "clients world_connected = []"
    by (simp_all add: example_defs)
  show ?thesis
    using 1 3 5 handle_client_disconnect [OF 2 4, of "[]"]
    by simp
qed

subsection \<open>What a pass of the session loop forwards and answers\<close>

lemmas chunk_defs = chunk_hello_def chunk_eof_def

lemmas eval_defs = chunk_defs example_defs session_defs serial_defs

lemma send_data_tx:
  assumes "send_data env (Str s) w = (r, w1)" and "py_encode s = Inr bs"
    and "\<not> endswith_newline bs"
  shows "(r = Inr True \<longrightarrow> rfcomm_tx w1 = rfcomm_tx w @ [bs @ [newline]])
       \<and> (rfcomm_tx w1 = rfcomm_tx w \<or> rfcomm_tx w1 = rfcomm_tx w @ [bs @ [newline]])"
  using assms
  by (auto simp: send_data_def send_data_try_def serial_defs Let_def ensure_newline_def
      split: sum.splits if_splits option.splits bool.splits prod.splits)

lemma client_chunk_tx:
  assumes "py_decode data = Inr str"
    and "send_data (sending env) (Str (py_strip str)) w = (r, w1)"
  shows "rfcomm_tx (snd (client_chunk c env data w)) = rfcomm_tx w1"
  using assms
  by (auto simp: client_chunk_def client_try_def sock_send_def split: sum.splits prod.splits)

lemma client_chunk_tx_undecodable:
  assumes "py_decode data = Inl e"
  shows "rfcomm_tx (snd (client_chunk c env data w)) = rfcomm_tx w"
  using assms
  by (auto simp: client_chunk_def client_try_def sock_send_def split: sum.splits prod.splits)

lemma client_chunk_one_reply:
  assumes "client_chunk c env data w = (Inr u, w')"
  shows "\<exists>r. sock_tx w' = (sock_tx w)(c := sock_tx w c @ [r])"
proof (cases "py_decode data")
  case (Inl e)
  with assms show ?thesis
    by (auto simp: client_chunk_def client_try_def sock_send_def split: sum.splits)
next
  case (Inr str)
  obtain r1 w1 where s: "send_data (sending env) (Str (py_strip str)) w = (r1, w1)"
    by (cases "send_data (sending env) (Str (py_strip str)) w")
  note f = send_data_frame [OF s]
  from assms Inr s f show ?thesis
    by (auto simp: client_chunk_def client_try_def sock_send_def
        split: sum.splits if_splits)
qed

lemma loop_pass:
  assumes "\<not> exit_flag w" and "recv env = Inr data" and "data \<noteq> []"
    and "client_chunk c env data w = (Inr u, w')"
  shows "client_loop c (env # envs) w = client_loop c envs w'"
  using assms by simp

lemma utf8_encode_append:
  "utf8_encode xs = Some a \<Longrightarrow> utf8_encode ys = Some b \<Longrightarrow> utf8_encode (xs @ ys) = Some (a @ b)"
  by (induction xs arbitrary: a) (auto simp del: utf8_encode1.simps split: option.splits)




text \<open>
  Claim C1. For a chunk that decodes, when the reply itself can be sent: the reply is
  \<^verbatim>\<open>ACK\<close> exactly when \<^verbatim>\<open>send_data\<close> returned \<^verbatim>\<open>True\<close> and \<^verbatim>\<open>NACK\<close> exactly when it returned
  \<^verbatim>\<open>False\<close>; in both cases the loop goes on to the next \<^verbatim>\<open>recv\<close> with the session still
  registered and its socket open. On an open handle \<^verbatim>\<open>send_data\<close> returns \<^verbatim>\<open>True\<close> exactly
  when \<^verbatim>\<open>ser.write\<close> does not raise.
\<close>

theorem reply_follows_write:
  assumes "\<not> exit_flag w" and "recv env = Inr data" and "data \<noteq> []"
    and "py_decode data = Inr str" and "reply_send env = Inr ()"
  shows "\<exists>ok w1. send_data (sending env) (Str (py_strip str)) w = (Inr ok, w1)
        \<and> client_loop c (env # envs) w
           = client_loop c envs
               (w1\<lparr>sock_tx := (sock_tx w)(c := sock_tx w c @ [if ok then ACK else NACK])\<rparr>)
        \<and> ACK \<noteq> NACK
        \<and> (ser_open w \<longrightarrow> ok = (ser_write (sending env) = Inr ()))"
proof -
  obtain ok w1 where s: "send_data (sending env) (Str (py_strip str)) w = (Inr ok, w1)"
    using send_data_total by blast
  have ch: "client_chunk c env data w
         = (Inr (), w1\<lparr>sock_tx := (sock_tx w)(c := sock_tx w c @ [if ok then ACK else NACK])\<rparr>)"
    by (rule decoded_chunk_reply [OF assms(4) s assms(5)])
  have l: "client_loop c (env # envs) w
           = client_loop c envs
               (w1\<lparr>sock_tx := (sock_tx w)(c := sock_tx w c @ [if ok then ACK else NACK])\<rparr>)"
    by (rule loop_pass [OF assms(1,2,3) ch])
  have o: "ser_open w \<longrightarrow> ok = (ser_write (sending env) = Inr ())"
  proof
    assume op: "ser_open w"
    obtain bs where e: "py_encode (py_strip str) = Inr bs" and n: "\<not> endswith_newline bs"
      and d: "py_decode (bs @ [newline]) = Inr (py_strip str @ [10])"
      using stripped_line [OF assms(4)] by blast
    from send_data_connected [OF op e n d, of "sending env"] s
    show "ok = (ser_write (sending env) = Inr ())"
      by (cases "ser_write (sending env)") auto
  qed
  from s l o ack_neq_nack show ?thesis by blast
qed

theorem reply_follows_write_witness:
  "\<not> exit_flag world_connected
   \<and> recv chunk_hello_unsent = Inr (''hi'' @ [newline])
   \<and> py_decode (''hi'' @ [newline]) = Inr (map of_char ''hi'' @ [10])
   \<and> reply_send chunk_hello_unsent = Inr ()
   \<and> ser_open world_connected
   \<and> client_loop 7 [chunk_hello_unsent] world_connected
      = (Pending,
         world_connected\<lparr>ser := None, ser_closes := Suc 0, sock_tx := (\<lambda>_. [])(7 := [NACK])\<rparr>)
   \<and> fst (client_loop 7 [chunk_hello_unsent, chunk_hello] world_connected) = Pending
   \<and> sock_tx (snd (client_loop 7 [chunk_hello_unsent, chunk_hello] world_connected)) 7
      = [NACK, ACK]"
proof -
  have 1: "\<not> exit_flag world_connected" by (simp add: example_defs)
  have 2: "recv chunk_hello_unsent = Inr (''hi'' @ [newline])"
    by (simp add: chunk_hello_unsent_def)
  have 3: "''hi'' @ [newline] \<noteq> []" by simp
  have 4: "py_decode (''hi'' @ [newline]) = Inr (map of_char ''hi'' @ [10])"
    by (simp add: py_decode_def newline_def)
  have 5: "reply_send chunk_hello_unsent = Inr ()" by (simp add: chunk_hello_unsent_def)
  have 6: "ser_open world_connected" by (simp add: example_defs ser_open_def)
  have 7: "send_data (sending chunk_hello_unsent) (Str (py_strip (map of_char ''hi'' @ [10])))
             world_connected
           = (Inr False, world_connected\<lparr>ser := None, ser_closes := Suc 0\<rparr>)"
    by (simp add: chunk_hello_unsent_def eval_defs)
  from reply_follows_write [OF 1 2 3 4 5, of 7 "[]"] 7
  have "client_loop 7 [chunk_hello_unsent] world_connected
      = client_loop 7 []
          (world_connected\<lparr>ser := None, ser_closes := Suc 0,
             sock_tx := (sock_tx world_connected)(7 := sock_tx world_connected 7 @ [NACK])\<rparr>)"
    by auto
  then have 8: "client_loop 7 [chunk_hello_unsent] world_connected
      = (Pending,
         world_connected\<lparr>ser := None, ser_closes := Suc 0, sock_tx := (\<lambda>_. [])(7 := [NACK])\<rparr>)"
    by (simp add: example_defs)
  have 9: "fst (client_loop 7 [chunk_hello_unsent, chunk_hello] world_connected) = Pending"
    "sock_tx (snd (client_loop 7 [chunk_hello_unsent, chunk_hello] world_connected)) 7
      = [NACK, ACK]"
    by (simp_all add: chunk_hello_unsent_def eval_defs)
  from 1 2 4 5 6 8 9 show ?thesis by simp
qed

text \<open>
  Claim C4 says the session splits what it receives at the first newline, buffers the
  rest, and answers once per line. The code keeps no buffer: a chunk holding the two
  lines \<^verbatim>\<open>a\<close> and \<^verbatim>\<open>b\<close> is forwarded in one write, both lines together, and answered with one
  \<^verbatim>\<open>ACK\<close>; nothing is forwarded for \<^verbatim>\<open>b\<close> later.
\<close>

theorem line_delimited_counterexample:
  "recv chunk_two_lines = Inr (''a'' @ [newline] @ ''b'' @ [newline])
   \<and> fst (handle_client 7 [chunk_two_lines, chunk_eof] world_connected) = EndOfStream
   \<and> rfcomm_tx (snd (handle_client 7 [chunk_two_lines, chunk_eof] world_connected))
      = [''a'' @ [newline] @ ''b'' @ [newline]]
   \<and> rfcomm_tx (snd (handle_client 7 [chunk_two_lines, chunk_eof] world_connected))
      \<noteq> [''a'' @ [newline], ''b'' @ [newline]]
   \<and> sock_tx (snd (handle_client 7 [chunk_two_lines, chunk_eof] world_connected)) 7 = [ACK]
   \<and> length (sock_tx (snd (handle_client 7 [chunk_two_lines, chunk_eof] world_connected)) 7)
      \<noteq> length (filter (\<lambda>b. b = newline) (''a'' @ [newline] @ ''b'' @ [newline]))"
  by (simp add: chunk_two_lines_def eval_defs)

text \<open>
  Claim C4 as amended. The unit of the protocol is the chunk one \<^verbatim>\<open>recv\<close> returns, not the
  line. For every pass of the loop that completes, the session's socket gets exactly one
  reply, and the port gets at most one write, which is the whole chunk, decoded, stripped
  of surrounding whitespace, encoded again and ended by one newline, embedded newlines
  included; the next pass starts from the state this one leaves, which holds no bytes of
  the chunk.
\<close>

theorem chunk_is_one_message:
  assumes "\<not> exit_flag w" and "recv env = Inr data" and "data \<noteq> []"
    and "client_chunk c env data w = (Inr (), w')"
  shows "client_loop c (env # envs) w = client_loop c envs w'
       \<and> (\<exists>r. sock_tx w' = (sock_tx w)(c := sock_tx w c @ [r]))
       \<and> (rfcomm_tx w' = rfcomm_tx w
           \<or> (\<exists>str bs. py_decode data = Inr str \<and> py_encode (py_strip str) = Inr bs
                 \<and> rfcomm_tx w' = rfcomm_tx w @ [bs @ [newline]]))"
proof -
  have l: "client_loop c (env # envs) w = client_loop c envs w'"
    by (rule loop_pass [OF assms])
  have r: "\<exists>r. sock_tx w' = (sock_tx w)(c := sock_tx w c @ [r])"
    by (rule client_chunk_one_reply [OF assms(4)])
  have t: "rfcomm_tx w' = rfcomm_tx w
           \<or> (\<exists>str bs. py_decode data = Inr str \<and> py_encode (py_strip str) = Inr bs
                 \<and> rfcomm_tx w' = rfcomm_tx w @ [bs @ [newline]])"
  proof (cases "py_decode data")
    case (Inl e)
    from client_chunk_tx_undecodable [OF Inl, of c env w] assms(4) show ?thesis by simp
  next
    case (Inr str)
    obtain r1 w1 where s: "send_data (sending env) (Str (py_strip str)) w = (r1, w1)"
      by (cases "send_data (sending env) (Str (py_strip str)) w")
    obtain bs where e: "py_encode (py_strip str) = Inr bs" and n: "\<not> endswith_newline bs"
      using stripped_line [OF Inr] by blast
    from client_chunk_tx [OF Inr s, of c] assms(4) have "rfcomm_tx w' = rfcomm_tx w1" by simp
    with send_data_tx [OF s e n] Inr e show ?thesis by auto
  qed
  from l r t show ?thesis by blast
qed

theorem chunk_is_one_message_witness:
  "\<not> exit_flag world_connected
   \<and> recv chunk_two_lines = Inr (''a'' @ [newline] @ ''b'' @ [newline])
   \<and> client_chunk 7 chunk_two_lines (''a'' @ [newline] @ ''b'' @ [newline]) world_connected
      = (Inr (),
         world_connected\<lparr>rfcomm_tx := [''a'' @ [newline] @ ''b'' @ [newline]],
           sock_tx := (\<lambda>_. [])(7 := [ACK])\<rparr>)
   \<and> client_loop 7 [chunk_two_lines] world_connected
      = (Pending,
         world_connected\<lparr>rfcomm_tx := [''a'' @ [newline] @ ''b'' @ [newline]],
           sock_tx := (\<lambda>_. [])(7 := [ACK])\<rparr>)"
proof -
  have 1: "\<not> exit_flag world_connected" by (simp add: example_defs)
  have 2: "recv chunk_two_lines = Inr (''a'' @ [newline] @ ''b'' @ [newline])"
    by (simp add: chunk_two_lines_def)
  have 3: "''a'' @ [newline] @ ''b'' @ [newline] \<noteq> []" by simp
  have 4: "client_chunk 7 chunk_two_lines (''a'' @ [newline] @ ''b'' @ [newline])
             world_connected
      = (Inr (),
         world_connected\<lparr>rfcomm_tx := [''a'' @ [newline] @ ''b'' @ [newline]],
           sock_tx := (\<lambda>_. [])(7 := [ACK])\<rparr>)"
    by (simp add: chunk_two_lines_def eval_defs)
  from chunk_is_one_message [OF 1 2 3 4, of "[]"]
  have "client_loop 7 [chunk_two_lines] world_connected
      = client_loop 7 []
         (world_connected\<lparr>rfcomm_tx := [''a'' @ [newline] @ ''b'' @ [newline]],
           sock_tx := (\<lambda>_. [])(7 := [ACK])\<rparr>)"
    by blast
  then have "client_loop 7 [chunk_two_lines] world_connected
      = (Pending,
         world_connected\<lparr>rfcomm_tx := [''a'' @ [newline] @ ''b'' @ [newline]],
           sock_tx := (\<lambda>_. [])(7 := [ACK])\<rparr>)"
    by (simp add: example_defs)
  with 1 2 4 show ?thesis by simp
qed



text \<open>
  Claim C9 says the bytes written are the producer's payload, unchanged but for a newline
  added when missing. \<^verbatim>\<open>handle_client\<close> strips the decoded text first: the payload
  \<^verbatim>\<open>" x"\<close> reaches the port as \<^verbatim>\<open>"x"\<close>.
\<close>

theorem payload_unchanged_counterexample:
  "recv chunk_padded = Inr ('' x'' @ [newline])
   \<and> sock_tx (snd (client_loop 7 [chunk_padded] world_connected)) 7 = [ACK]
   \<and> rfcomm_tx (snd (client_loop 7 [chunk_padded] world_connected)) = [''x'' @ [newline]]
   \<and> rfcomm_tx (snd (client_loop 7 [chunk_padded] world_connected)) \<noteq> ['' x'' @ [newline]]"
  by (simp add: chunk_padded_def eval_defs)

text \<open>
  Claim C9 as amended. For every chunk that decodes and is forwarded with success, the
  bytes written are the UTF-8 encoding of the decoded text stripped of leading and
  trailing whitespace, followed by exactly one newline. They are the producer's bytes
  with a newline added when the payload has no surrounding whitespace, and the
  producer's bytes as they are when the payload is such a text ended by one newline.
\<close>

theorem forwarded_bytes:
  assumes "py_decode data = Inr str"
    and "send_data (sending env) (Str (py_strip str)) w = (Inr True, w1)"
  shows "\<exists>bs. py_encode (py_strip str) = Inr bs
       \<and> rfcomm_tx w1 = rfcomm_tx w @ [bs @ [newline]]
       \<and> rfcomm_tx (snd (client_chunk c env data w)) = rfcomm_tx w @ [bs @ [newline]]
       \<and> (py_strip str = str \<longrightarrow> bs = data)
       \<and> (py_strip str @ [10] = str \<longrightarrow> bs @ [newline] = data)"
proof -
  obtain bs where e: "py_encode (py_strip str) = Inr bs" and n: "\<not> endswith_newline bs"
    using stripped_line [OF assms(1)] by blast
  have t: "rfcomm_tx w1 = rfcomm_tx w @ [bs @ [newline]]"
    using send_data_tx [OF assms(2) e n] by simp
  have t': "rfcomm_tx (snd (client_chunk c env data w)) = rfcomm_tx w @ [bs @ [newline]]"
    using client_chunk_tx [OF assms] t by simp
  have full: "py_encode str = Inr data" by (rule py_encode_decode [OF assms(1)])
  have a: "py_strip str = str \<longrightarrow> bs = data" using e full by auto
  have b: "py_strip str @ [10] = str \<longrightarrow> bs @ [newline] = data"
  proof
    assume h: "py_strip str @ [10] = str"
    from e obtain ns where ns: "utf8_encode (py_strip str) = Some ns" and bs: "bs = map char_of ns"
      by (auto simp: py_encode_def split: option.splits)
    have "utf8_encode (py_strip str @ [10]) = Some (ns @ [10])"
      by (rule utf8_encode_append [OF ns]) simp
    then have "py_encode (py_strip str @ [10]) = Inr (bs @ [newline])"
      by (simp add: py_encode_def bs newline_def char_of_eq_iff)
    with h full show "bs @ [newline] = data" by simp
  qed
  from e t t' a b show ?thesis by blast
qed

theorem forwarded_bytes_witness:
  "py_decode (''hi'' @ [newline]) = Inr (map of_char ''hi'' @ [10])
   \<and> send_data (sending chunk_hello) (Str (py_strip (map of_char ''hi'' @ [10])))
        world_connected
      = (Inr True, world_connected\<lparr>rfcomm_tx := [''hi'' @ [newline]]\<rparr>)
   \<and> py_strip (map of_char ''hi'' @ [10]) @ [10] = map of_char ''hi'' @ [10]
   \<and> rfcomm_tx (snd (client_chunk 7 chunk_hello (''hi'' @ [newline]) world_connected))
      = [''hi'' @ [newline]]"
proof -
  have 1: "py_decode (''hi'' @ [newline]) = Inr (map of_char ''hi'' @ [10])"
    by (simp add: py_decode_def newline_def)
  have 2: "send_data (sending chunk_hello) (Str (py_strip (map of_char ''hi'' @ [10])))
        world_connected
      = (Inr True, world_connected\<lparr>rfcomm_tx := [''hi'' @ [newline]]\<rparr>)"
    by (simp add: eval_defs)
  have 3: "py_strip (map of_char ''hi'' @ [10]) @ [10] = map of_char ''hi'' @ [10]"
    by (simp add: py_strip_def py_isspace_def)
  have 4: "rfcomm_tx world_connected = []" by (simp add: example_defs)
  from forwarded_bytes [OF 1 2, of 7] 3 4
  have "rfcomm_tx (snd (client_chunk 7 chunk_hello (''hi'' @ [newline]) world_connected))
      = [''hi'' @ [newline]]"
    by auto
  with 1 2 3 show ?thesis by simp
qed

subsection \<open>No guard around the handle\<close>

text \<open>
  The two parts, run one after the other, are \<^verbatim>\<open>send_data\<close>.
\<close>

lemma send_data_phases:
  "send_data env data w =
    (case send_data_check env w of
       (False, w1) \<Rightarrow> (Inr False, w1)
     | (True, w1) \<Rightarrow> send_data_finish env data w1)"
  by (auto simp: send_data_def send_data_try_def send_data_check_def send_data_finish_def
      Let_def split: prod.splits sum.splits bool.splits)

text \<open>
  Claim C6 says that writes and state changes of the handle are serialized under one
  lock, so that a write and a reconnect never interleave. The code has no lock. With an
  open handle and a device that answers, \<^verbatim>\<open>send_data\<close> returns \<^verbatim>\<open>True\<close> when it runs before a
  pass of the monitor that finds the port unlisted, and \<^verbatim>\<open>True\<close> again when it runs after
  it (it reconnects); with that pass between its connection test and its write it
  returns \<^verbatim>\<open>False\<close> and nothing is written: an outcome of neither order.
\<close>

theorem serialized_counterexample:
  "fst (send_data link_up hello world_connected) = Inr True
   \<and> fst (send_data link_up hello (snd (monitor_step monitor_unlisted world_connected)))
      = Inr True
   \<and> fst (monitor_between link_up hello monitor_unlisted world_connected) = Inr False
   \<and> rfcomm_tx (snd (monitor_between link_up hello monitor_unlisted world_connected)) = []"
  by (simp add: monitor_between_def send_data_check_def send_data_finish_def monitor_step_def
      monitor_unlisted_def port_down_def hello_def eval_defs)

text \<open>
  Claim C6 as amended. No lock guards the handle. When a pass of the monitor that finds
  the port unlisted falls between the connection test of \<^verbatim>\<open>send_data\<close> and its write, on a
  handle that was open, the monitor closes and drops the handle, the write raises on the
  missing handle, and \<^verbatim>\<open>send_data\<close> absorbs the exception: it returns \<^verbatim>\<open>False\<close>, with
  \<^verbatim>\<open>ser = None\<close>, the handle closed once and nothing written. Without the pass between
  them the two parts are the whole of \<^verbatim>\<open>send_data\<close>.
\<close>

theorem reset_between_check_and_write:
  assumes "ser_open w"
    and "is_rfcomm_available (probe menv) = Inr False"
    and "is_rfcomm_available (comports (reconnect menv)) = Inr False"
    and "to_bytes data = Inr raw"
  shows "send_data_check env w = (True, w)
       \<and> send_data env data w = send_data_finish env data w
       \<and> monitor_between env data menv w
          = (Inr False, w\<lparr>ser := None, ser_closes := Suc (ser_closes w)\<rparr>)"
  using assms
  by (auto simp: send_data_phases send_data_check_def send_data_finish_def monitor_between_def
      monitor_step_def serial_defs Let_def split: option.splits)

theorem reset_between_check_and_write_witness:
  "ser_open world_connected
   \<and> is_rfcomm_available (probe monitor_unlisted) = Inr False
   \<and> is_rfcomm_available (comports (reconnect monitor_unlisted)) = Inr False
   \<and> to_bytes hello = Inr ''hi''
   \<and> monitor_between link_up hello monitor_unlisted world_connected
      = (Inr False, world_connected\<lparr>ser := None, ser_closes := Suc (ser_closes world_connected)\<rparr>)"
proof -
  have 1: "ser_open world_connected" by (simp add: example_defs ser_open_def)
  have 2: "is_rfcomm_available (probe monitor_unlisted) = Inr False"
    by (simp add: monitor_unlisted_def is_rfcomm_available_def RFCOMM_PORT_def)
  have 3: "is_rfcomm_available (comports (reconnect monitor_unlisted)) = Inr False"
    by (simp add: monitor_unlisted_def port_down_def is_rfcomm_available_def RFCOMM_PORT_def)
  have 4: "to_bytes hello = Inr ''hi''"
    by (simp add: hello_def py_encode_def char_of_eq_iff)
  show ?thesis
    using 1 2 3 4 reset_between_check_and_write [OF 1 2 3 4, of link_up]
    by simp
qed

end
